theory Spec2Isabelle
  imports Complex_Main "HOL-Library.Sublist"
begin

section \<open>The tokenizer of mod.ts\<close>

text \<open>
  A shallow embedding of \<^verbatim>\<open>tokenizer\<close> (mod.ts). A JavaScript string is a
  \<open>string\<close> (one \<open>char\<close> per code unit; every character the default validators name
  has a code below 256), the counters \<^verbatim>\<open>line\<close> and \<^verbatim>\<open>pos\<close> are natural numbers,
  and a \<^verbatim>\<open>uid\<close> is a real number. The imported hash \<^verbatim>\<open>getStringUid\<close> is not part
  of the repository: every function that calls it takes it as its first argument \<open>h\<close>.
  Validators are pure functions.
\<close>

subsection \<open>Default validators\<close>

definition minLetter1 :: nat where "minLetter1 = of_char CHR ''a''"
definition maxLetter1 :: nat where "maxLetter1 = of_char CHR ''z''"
definition minLetter2 :: nat where "minLetter2 = of_char CHR ''A''"
definition maxLetter2 :: nat where "maxLetter2 = of_char CHR ''Z''"
definition minNumber :: nat where "minNumber = of_char CHR ''0''"
definition maxNumber :: nat where "maxNumber = of_char CHR ''9''"

text \<open>\<^verbatim>\<open>_isAlpha\<close>, \<^verbatim>\<open>_isNumeric\<close>, \<^verbatim>\<open>_isSeparator\<close>, \<^verbatim>\<open>_isSpace\<close> and
  \<^verbatim>\<open>_isOperator\<close>; a name cannot start with an underscore here.\<close>

definition default_isAlpha :: "char \<Rightarrow> bool" where
  "default_isAlpha c =
     (let charCode = (of_char c :: nat)
      in charCode \<ge> minLetter1 \<and> charCode \<le> maxLetter1 \<or> charCode \<ge> minLetter2 \<and> charCode \<le> maxLetter2)"

definition default_isNumeric :: "char \<Rightarrow> bool" where
  "default_isNumeric c =
     (let charCode = (of_char c :: nat) in charCode \<ge> minNumber \<and> charCode \<le> maxNumber)"

text \<open>The separator literal of the source holds, between \<open>?\<close> and \<open>:\<close>, the two code
  units 0xC2 and 0xBF.\<close>

definition default_isSeparator :: "char \<Rightarrow> bool" where
  "default_isSeparator c \<longleftrightarrow> c \<in> set (''[](){}.#?'' @ [CHR 0xC2, CHR 0xBF] @ '':;, '')"

definition default_isSpace :: "char \<Rightarrow> bool" where
  "default_isSpace c \<longleftrightarrow> c \<in> set [CHR '' '', CHR 0x09, CHR 0x0D, CHR 0x0A]"

definition default_isOperator :: "char \<Rightarrow> bool" where
  "default_isOperator c \<longleftrightarrow> c \<in> set ''+-*/^%&=<>''"

subsection \<open>Tokens, validators and options\<close>

datatype TokenType =
  Unknown | String | Number | Identifier | Operator | Separator | Space | Instruction | EOF

record IToken =
  uid :: real
  type :: TokenType
  "text" :: string
  line :: nat
  pos :: nat

type_synonym CharacterValidator = "char \<Rightarrow> nat \<Rightarrow> nat \<Rightarrow> bool"
type_synonym TokenValidator = "string \<Rightarrow> nat \<Rightarrow> nat \<Rightarrow> bool"

record ITokenizerValidators =
  isCharacter :: CharacterValidator
  isNumber :: CharacterValidator
  isSpace :: CharacterValidator
  isOperator :: CharacterValidator
  isNumberSeparator :: CharacterValidator
  isSeparator :: CharacterValidator
  isString :: CharacterValidator
  isInstruction :: TokenValidator

text \<open>\<^verbatim>\<open>Partial<ITokenizerValidators>\<close> and \<^verbatim>\<open>Partial<ITokenizerOptions>\<close>: every field
  may be absent.\<close>

record Partial_ITokenizerValidators =
  p_isCharacter :: "CharacterValidator option"
  p_isNumber :: "CharacterValidator option"
  p_isSpace :: "CharacterValidator option"
  p_isOperator :: "CharacterValidator option"
  p_isNumberSeparator :: "CharacterValidator option"
  p_isSeparator :: "CharacterValidator option"
  p_isString :: "CharacterValidator option"
  p_isInstruction :: "TokenValidator option"

record Partial_ITokenizerOptions =
  validators :: "Partial_ITokenizerValidators option"
  insertEof :: "bool option"

text \<open>\<^verbatim>\<open>options?.validators?.f ?? d\<close>.\<close>

definition validator_or ::
  "Partial_ITokenizerOptions option \<Rightarrow> (Partial_ITokenizerValidators \<Rightarrow> 'a option) \<Rightarrow> 'a \<Rightarrow> 'a" where
  "validator_or options f d =
     (case options of None \<Rightarrow> d
      | Some opts \<Rightarrow> (case validators opts of None \<Rightarrow> d
                     | Some vs \<Rightarrow> (case f vs of None \<Rightarrow> d | Some v \<Rightarrow> v)))"

text \<open>The eight constants the first lines of \<^verbatim>\<open>tokenizer\<close> bind (\<^verbatim>\<open>isAlpha\<close> is
  the field \<open>isCharacter\<close>, \<^verbatim>\<open>isNumeric\<close> the field \<open>isNumber\<close>).\<close>

definition resolve :: "Partial_ITokenizerOptions option \<Rightarrow> ITokenizerValidators" where
  "resolve options =
     \<lparr> isCharacter = validator_or options p_isCharacter (\<lambda>c l p. default_isAlpha c),
       isNumber = validator_or options p_isNumber (\<lambda>c l p. default_isNumeric c),
       isSpace = validator_or options p_isSpace (\<lambda>c l p. default_isSpace c),
       isOperator = validator_or options p_isOperator (\<lambda>c l p. default_isOperator c),
       isNumberSeparator = validator_or options p_isNumberSeparator (\<lambda>c l p. c = CHR ''.''),
       isSeparator = validator_or options p_isSeparator (\<lambda>c l p. default_isSeparator c),
       isString = validator_or options p_isString (\<lambda>c l p. c = CHR 0x22),
       isInstruction = validator_or options p_isInstruction (\<lambda>t l p. False) \<rparr>"

subsection \<open>The state of one pass\<close>

text \<open>The variables the closures of \<^verbatim>\<open>tokenizer\<close> share. The fields \<open>line\<close> and
  \<open>pos\<close> of the state are the counters; those of a token are written \<open>IToken.line\<close>
  and \<open>IToken.pos\<close>.\<close>

record state =
  line :: nat
  pos :: nat
  token :: IToken
  tokens :: "IToken list"

definition initial :: state where
  "initial =
     \<lparr> line = 1, pos = 1,
       token = \<lparr> uid = 0, type = Unknown, text = [], IToken.line = 1, IToken.pos = 1 \<rparr>,
       tokens = [] \<rparr>"

definition startsWith :: "string \<Rightarrow> string \<Rightarrow> bool" where
  "startsWith s x \<longleftrightarrow> prefix x s"

definition endsWith :: "string \<Rightarrow> string \<Rightarrow> bool" where
  "endsWith s x \<longleftrightarrow> suffix x s"

definition resetToken :: "state \<Rightarrow> state" where
  "resetToken s =
     s\<lparr> token := \<lparr> uid = 0, type = Unknown, text = [],
                    IToken.line = line s, IToken.pos = pos s \<rparr> \<rparr>"

definition pushToken :: "(string \<Rightarrow> real) \<Rightarrow> ITokenizerValidators \<Rightarrow> state \<Rightarrow> state" where
  "pushToken h V s =
     (let t = token s;
          t1 = (if type t = Identifier \<and> isInstruction V (text t) (line s) (pos s)
                then t\<lparr> type := Instruction \<rparr> else t);
          t2 = t1\<lparr> uid := h (text t1) \<rparr>
      in resetToken (s\<lparr> tokens := tokens s @ [t2] \<rparr>))"

text \<open>\<^verbatim>\<open>token.type = types.find((type) => type !== TokenType.Unknown)!\<close>. When no
  entry differs from Unknown (the call after the loop), the source stores
  \<^verbatim>\<open>undefined\<close> in an accumulator that is never read again; the model leaves the
  type as it is.\<close>

definition setType :: "TokenType list \<Rightarrow> state \<Rightarrow> state" where
  "setType types s =
     (case List.find (\<lambda>ty. ty \<noteq> Unknown) types of
        Some ty \<Rightarrow> s\<lparr> token := (token s)\<lparr> type := ty \<rparr> \<rparr>
      | None \<Rightarrow> s)"

definition pushIfNotTypes ::
  "(string \<Rightarrow> real) \<Rightarrow> ITokenizerValidators \<Rightarrow> TokenType list \<Rightarrow> state \<Rightarrow> state" where
  "pushIfNotTypes h V types s =
     setType types (if type (token s) \<notin> set types then pushToken h V s else s)"

definition concatIfTypes :: "(string \<Rightarrow> real) \<Rightarrow> TokenType list \<Rightarrow> string \<Rightarrow> state \<Rightarrow> state" where
  "concatIfTypes h types txt s =
     (if type (token s) \<in> set types
      then setType types
             (s\<lparr> token := (token s)\<lparr> text := text (token s) @ txt,
                                      uid := h (text (token s) @ txt) \<rparr> \<rparr>)
      else s)"

subsection \<open>The loop body\<close>

text \<open>How a pass through the \<^verbatim>\<open>switch\<close> leaves the loop body: by \<^verbatim>\<open>break\<close> (or
  the end of the default case), after which \<^verbatim>\<open>pos++\<close> runs, or by \<^verbatim>\<open>continue\<close>,
  which goes to the next character at once.\<close>

datatype flow = Break | Continue

definition newline :: "char \<Rightarrow> state \<Rightarrow> state" where
  "newline c s = (if c = CHR 0x0A then s\<lparr> line := line s + 1, pos := 1 \<rparr> else s)"

definition switch ::
  "(string \<Rightarrow> real) \<Rightarrow> ITokenizerValidators \<Rightarrow> char \<Rightarrow> state \<Rightarrow> flow \<times> state" where
  "switch h V c s =
     (if isString V c (line s) (pos s) then
        (if endsWith (text (token s)) [CHR 0x5C]
         then (Continue, s\<lparr> token := (token s)\<lparr> text := text (token s) @ [c] \<rparr> \<rparr>)
         else
           (let s1 = pushIfNotTypes h V [Unknown, String] s;
                s2 = concatIfTypes h [String, Unknown] [c] s1
            in if type (token s2) = String \<and> length (text (token s2)) > 1
                  \<and> startsWith (text (token s2)) [c] \<and> endsWith (text (token s2)) [c]
               then (Break, pushToken h V s2)
               else (Break, s2)))
      else if type (token s) = String then
        (Break, concatIfTypes h [String] [c] s)
      else if isSpace V c (line s) (pos s) then
        (Break, concatIfTypes h [Space] [c] (pushIfNotTypes h V [Unknown, Space] s))
      else if isSeparator V c (line s) (pos s) then
        (if isNumberSeparator V c (line s) (pos s) \<and> type (token s) = Number
         then (Break, concatIfTypes h [Number] [c] (pushIfNotTypes h V [Unknown, Number] s))
         else (Break, concatIfTypes h [Separator] [c] (pushIfNotTypes h V [Unknown, Separator] s)))
      else if isNumber V c (line s) (pos s) then
        (let ty = (if type (token s) = Identifier then Identifier else Number)
         in (Break, concatIfTypes h [ty] [c] (pushIfNotTypes h V [Unknown, ty] s)))
      else if isCharacter V c (line s) (pos s) then
        (let ty = (if type (token s) = Number then Number else Identifier)
         in (Break, concatIfTypes h [ty] [c] (pushIfNotTypes h V [Unknown, ty] s)))
      else if isOperator V c (line s) (pos s) then
        (Break, concatIfTypes h [Operator] [c] (pushIfNotTypes h V [Unknown, Operator] s))
      else if isNumberSeparator V c (line s) (pos s) \<and> type (token s) = Number then
        (Break, concatIfTypes h [Number] [c] (pushIfNotTypes h V [Unknown, Number] s))
      else
        (Break, concatIfTypes h [Identifier] [c] (pushIfNotTypes h V [Unknown, Identifier] s)))"

definition body :: "(string \<Rightarrow> real) \<Rightarrow> ITokenizerValidators \<Rightarrow> state \<Rightarrow> char \<Rightarrow> state" where
  "body h V s c =
     (case switch h V c (newline c s) of
        (Continue, s') \<Rightarrow> s'
      | (Break, s') \<Rightarrow> s'\<lparr> pos := pos s' + 1 \<rparr>)"

text \<open>\<^verbatim>\<open>for (let i = 0; i < text.length; i++)\<close>, from index \<open>i\<close> on.\<close>

function loop ::
  "(string \<Rightarrow> real) \<Rightarrow> ITokenizerValidators \<Rightarrow> string \<Rightarrow> nat \<Rightarrow> state \<Rightarrow> state" where
  "loop h V txt i s = (if i < length txt then loop h V txt (i + 1) (body h V s (txt ! i)) else s)"
  by pat_completeness auto
termination
  by (relation "measure (\<lambda>(h, V, txt, i, s). length txt - i)") auto

declare loop.simps [simp del]

definition eofToken :: IToken where
  "eofToken = \<lparr> uid = 0, type = EOF, text = [], IToken.line = 0, IToken.pos = 0 \<rparr>"

definition tokenizer ::
  "(string \<Rightarrow> real) \<Rightarrow> string \<Rightarrow> Partial_ITokenizerOptions option \<Rightarrow> IToken list" where
  "tokenizer h txt options =
     (let V = resolve options;
          s = pushIfNotTypes h V [Unknown] (loop h V txt 0 initial)
      in if (case options of None \<Rightarrow> False
             | Some opts \<Rightarrow> (case insertEof opts of None \<Rightarrow> False | Some b \<Rightarrow> b))
         then tokens s @ [eofToken]
         else tokens s)"


subsection \<open>Observing the scan\<close>

text \<open>\<open>state_at h V txt i\<close> is the state on entry to iteration \<open>i\<close> of the loop (the
  loop run over the first \<open>i\<close> characters); \<open>classifying h V txt i\<close> is the state the
  \<^verbatim>\<open>switch\<close> of iteration \<open>i\<close> sees, after the newline test: its \<open>line\<close> and \<open>pos\<close>
  are the numbers every validator receives for the character at index \<open>i\<close>.\<close>

definition state_at :: "(string \<Rightarrow> real) \<Rightarrow> ITokenizerValidators \<Rightarrow> string \<Rightarrow> nat \<Rightarrow> state" where
  "state_at h V txt i = loop h V (take i txt) 0 initial"

definition classifying :: "(string \<Rightarrow> real) \<Rightarrow> ITokenizerValidators \<Rightarrow> string \<Rightarrow> nat \<Rightarrow> state" where
  "classifying h V txt i = newline (txt ! i) (state_at h V txt i)"

text \<open>A text spans an underscore when it has characters on both sides of one.\<close>

definition spans_underscore :: "string \<Rightarrow> bool" where
  "spans_underscore s \<longleftrightarrow> (\<exists>i < length s. 0 < i \<and> Suc i < length s \<and> s ! i = CHR ''_'')"

subsection \<open>Invariants of the scan\<close>

text \<open>The types an accumulator takes once it has left Unknown.\<close>

definition accTypes :: "TokenType set" where
  "accTypes = {String, Number, Identifier, Operator, Separator, Space}"

text \<open>The text scanned so far: the emitted tokens, then the accumulator.\<close>

definition out :: "state \<Rightarrow> string" where
  "out s = concat (map text (tokens s)) @ text (token s)"

text \<open>What holds of every token \<^verbatim>\<open>pushToken\<close> has appended.\<close>

definition emitted :: "ITokenizerValidators \<Rightarrow> IToken \<Rightarrow> bool" where
  "emitted V t \<longleftrightarrow>
     text t \<noteq> [] \<and> (type t = Instruction \<or> type t \<in> accTypes)
     \<and> (type t = Instruction \<longrightarrow> (\<exists>l p. isInstruction V (text t) l p))
     \<and> (type t = Identifier \<longrightarrow> (\<exists>l p. \<not> isInstruction V (text t) l p))"

definition wf :: "ITokenizerValidators \<Rightarrow> state \<Rightarrow> bool" where
  "wf V s \<longleftrightarrow>
     (if type (token s) = Unknown then text (token s) = []
      else text (token s) \<noteq> [] \<and> type (token s) \<in> accTypes)
     \<and> list_all (emitted V) (tokens s)"

subsection \<open>Running without the instruction validator\<close>

text \<open>\<open>demote\<close> undoes a promotion; \<open>demote_state\<close> undoes those of the tokens emitted
  so far; \<open>without_isInstruction\<close> removes the \<^verbatim>\<open>isInstruction\<close> override from an
  options value, so that the default (always false) is in force.\<close>

definition demote :: "IToken \<Rightarrow> IToken" where
  "demote t = (if type t = Instruction then t\<lparr> type := Identifier \<rparr> else t)"

definition demote_state :: "state \<Rightarrow> state" where
  "demote_state s = s\<lparr> tokens := map demote (tokens s) \<rparr>"

definition without_isInstruction ::
  "Partial_ITokenizerOptions option \<Rightarrow> Partial_ITokenizerOptions option" where
  "without_isInstruction options =
     map_option
       (\<lambda>opts. opts\<lparr> validators :=
                  map_option (\<lambda>vs. vs\<lparr> p_isInstruction := None \<rparr>) (validators opts) \<rparr>)
       options"

section \<open>Properties\<close>

subsection \<open>The loop is a fold over the input\<close>

lemma loop_foldl: "loop h V inp i s = foldl (body h V) s (drop i inp)"
proof (induction h V inp i s rule: loop.induct)
  case (1 h V inp i s)
  show ?case
  proof (cases "i < length inp")
    case True
    then have "drop i inp = inp ! i # drop (Suc i) inp"
      by (simp add: Cons_nth_drop_Suc)
    with True 1 show ?thesis
      by (simp add: loop.simps [of h V inp i s])
  next
    case False
    then show ?thesis
      by (simp add: loop.simps [of h V inp i s])
  qed
qed

lemma tokenizer_foldl:
  "tokenizer h inp options =
     (if (case options of None \<Rightarrow> False
          | Some opts \<Rightarrow> (case insertEof opts of None \<Rightarrow> False | Some b \<Rightarrow> b))
      then tokens (pushIfNotTypes h (resolve options) [Unknown]
                     (foldl (body h (resolve options)) initial inp)) @ [eofToken]
      else tokens (pushIfNotTypes h (resolve options) [Unknown]
                     (foldl (body h (resolve options)) initial inp)))"
  by (simp add: tokenizer_def loop_foldl Let_def)

lemma state_at_foldl: "state_at h V inp i = foldl (body h V) initial (take i inp)"
  by (simp add: state_at_def loop_foldl)

lemma state_at_Suc:
  "i < length inp \<Longrightarrow> state_at h V inp (Suc i) = body h V (state_at h V inp i) (inp ! i)"
  by (simp add: state_at_foldl take_Suc_conv_app_nth)

lemma loop_from_state_at:
  "i \<le> length inp \<Longrightarrow> loop h V inp 0 initial = loop h V inp i (state_at h V inp i)"
proof -
  have "foldl (body h V) initial (take i inp @ drop i inp)
          = foldl (body h V) (foldl (body h V) initial (take i inp)) (drop i inp)"
    by (simp only: foldl_append)
  then show ?thesis
    by (simp add: loop_foldl state_at_foldl)
qed

lemma endsWith_single [simp]: "endsWith s [c] \<longleftrightarrow> s \<noteq> [] \<and> last s = c"
  by (cases s rule: rev_cases) (auto simp: endsWith_def)

lemma startsWith_single [simp]: "startsWith s [c] \<longleftrightarrow> s \<noteq> [] \<and> hd s = c"
  by (cases s) (auto simp: startsWith_def)

text \<open>The equations that evaluate the tokenizer on a concrete input.\<close>

lemmas eval_defs =
  tokenizer_foldl state_at_foldl classifying_def resolve_def validator_or_def initial_def
  body_def switch_def newline_def pushIfNotTypes_def concatIfTypes_def setType_def
  pushToken_def resetToken_def default_isAlpha_def default_isNumeric_def
  default_isSeparator_def default_isSpace_def default_isOperator_def
  minLetter1_def maxLetter1_def minLetter2_def maxLetter2_def minNumber_def maxNumber_def
  eofToken_def Let_def

subsection \<open>Counters and accumulator across the helpers\<close>

lemma pushToken_counters [simp]:
  "line (pushToken h V s) = line s" "pos (pushToken h V s) = pos s"
  by (simp_all add: pushToken_def resetToken_def Let_def)

lemma pushToken_token [simp]:
  "token (pushToken h V s) =
     \<lparr> uid = 0, type = Unknown, text = [], IToken.line = line s, IToken.pos = pos s \<rparr>"
  by (simp add: pushToken_def resetToken_def Let_def)

lemma pushToken_tokens:
  "tokens (pushToken h V s) =
     tokens s @ [(token s)\<lparr> type := (if type (token s) = Identifier
                                           \<and> isInstruction V (text (token s)) (line s) (pos s)
                                        then Instruction else type (token s)),
                             uid := h (text (token s)) \<rparr>]"
  by (simp add: pushToken_def resetToken_def Let_def)

lemma pushToken_out [simp]: "out (pushToken h V s) = out s"
  by (simp add: out_def pushToken_tokens)

lemma pushToken_wf: "wf V s \<Longrightarrow> type (token s) \<noteq> Unknown \<Longrightarrow> wf V (pushToken h V s)"
  by (auto simp: wf_def pushToken_tokens emitted_def accTypes_def)

lemma setType_pair [simp]:
  "ty \<noteq> Unknown \<Longrightarrow> setType [Unknown, ty] s = s\<lparr> token := (token s)\<lparr> type := ty \<rparr> \<rparr>"
  "ty \<noteq> Unknown \<Longrightarrow> setType [ty] s = s\<lparr> token := (token s)\<lparr> type := ty \<rparr> \<rparr>"
  "ty \<noteq> Unknown \<Longrightarrow> setType [ty, Unknown] s = s\<lparr> token := (token s)\<lparr> type := ty \<rparr> \<rparr>"
  by (simp_all add: setType_def)

lemma notin_accTypes [simp]:
  "Unknown \<notin> accTypes" "Instruction \<notin> accTypes" "EOF \<notin> accTypes"
  by (simp_all add: accTypes_def)

text \<open>The pair of calls every case of the \<^verbatim>\<open>switch\<close> but the string cases makes.\<close>

lemma accum:
  assumes "wf V s" and "ty \<in> accTypes"
  shows "wf V (concatIfTypes h [ty] [c] (pushIfNotTypes h V [Unknown, ty] s))"
    and "out (concatIfTypes h [ty] [c] (pushIfNotTypes h V [Unknown, ty] s)) = out s @ [c]"
    and "pos (concatIfTypes h [ty] [c] (pushIfNotTypes h V [Unknown, ty] s)) = pos s"
proof -
  from assms have ty: "ty \<noteq> Unknown" by auto
  show "wf V (concatIfTypes h [ty] [c] (pushIfNotTypes h V [Unknown, ty] s))"
    using assms ty pushToken_wf [of V s h]
    by (auto simp: concatIfTypes_def pushIfNotTypes_def wf_def)
  show "out (concatIfTypes h [ty] [c] (pushIfNotTypes h V [Unknown, ty] s)) = out s @ [c]"
    using assms ty pushToken_out [of h V s]
    by (auto simp: concatIfTypes_def pushIfNotTypes_def wf_def out_def split: if_splits)
  show "pos (concatIfTypes h [ty] [c] (pushIfNotTypes h V [Unknown, ty] s)) = pos s"
    using ty by (simp add: concatIfTypes_def pushIfNotTypes_def)
qed

lemma string_open:
  assumes "wf V s"
  shows "wf V (concatIfTypes h [String, Unknown] [c] (pushIfNotTypes h V [Unknown, String] s))"
    and "out (concatIfTypes h [String, Unknown] [c] (pushIfNotTypes h V [Unknown, String] s))
           = out s @ [c]"
    and "pos (concatIfTypes h [String, Unknown] [c] (pushIfNotTypes h V [Unknown, String] s))
           = pos s"
    and "type (token (concatIfTypes h [String, Unknown] [c]
                        (pushIfNotTypes h V [Unknown, String] s))) = String"
proof -
  have eq: "concatIfTypes h [String, Unknown] [c] (pushIfNotTypes h V [Unknown, String] s)
          = concatIfTypes h [String] [c] (pushIfNotTypes h V [Unknown, String] s)"
    by (simp add: concatIfTypes_def pushIfNotTypes_def)
  have S: "String \<in> accTypes" by (simp add: accTypes_def)
  show "wf V (concatIfTypes h [String, Unknown] [c] (pushIfNotTypes h V [Unknown, String] s))"
    unfolding eq using accum(1) [OF assms S] .
  show "out (concatIfTypes h [String, Unknown] [c] (pushIfNotTypes h V [Unknown, String] s))
          = out s @ [c]"
    unfolding eq using accum(2) [OF assms S] .
  show "pos (concatIfTypes h [String, Unknown] [c] (pushIfNotTypes h V [Unknown, String] s))
          = pos s"
    unfolding eq using accum(3) [OF assms S] .
  show "type (token (concatIfTypes h [String, Unknown] [c]
                       (pushIfNotTypes h V [Unknown, String] s))) = String"
    by (simp add: concatIfTypes_def pushIfNotTypes_def)
qed

lemma escape_swallow:
  assumes "wf V s" and "endsWith (text (token s)) [CHR 0x5C]"
  shows "wf V (s\<lparr> token := (token s)\<lparr> text := text (token s) @ [c] \<rparr> \<rparr>)"
    and "out (s\<lparr> token := (token s)\<lparr> text := text (token s) @ [c] \<rparr> \<rparr>) = out s @ [c]"
  using assms by (auto simp: wf_def out_def split: if_splits)

lemma string_continue:
  assumes "wf V s" and "type (token s) = String"
  shows "wf V (concatIfTypes h [String] [c] s)"
    and "out (concatIfTypes h [String] [c] s) = out s @ [c]"
    and "pos (concatIfTypes h [String] [c] s) = pos s"
  using assms by (auto simp: concatIfTypes_def wf_def out_def)

subsection \<open>One iteration\<close>

lemma switch_inv:
  assumes "wf V s"
  shows "wf V (snd (switch h V c s))"
    and "out (snd (switch h V c s)) = out s @ [c]"
proof -
  have T: "String \<in> accTypes" "Number \<in> accTypes" "Identifier \<in> accTypes"
    "Operator \<in> accTypes" "Separator \<in> accTypes" "Space \<in> accTypes"
    by (simp_all add: accTypes_def)
  note A = accum [OF assms]
  note S = string_open [OF assms, of h c]
  have P: "wf V (pushToken h V (concatIfTypes h [String, Unknown] [c]
                                  (pushIfNotTypes h V [Unknown, String] s)))"
    using pushToken_wf [OF S(1)] S(4) by simp
  show "wf V (snd (switch h V c s))"
    using assms
    by (simp add: switch_def Let_def A(1) T S(1) P escape_swallow(1) string_continue(1)
             del: endsWith_single startsWith_single)
  show "out (snd (switch h V c s)) = out s @ [c]"
    using assms
    by (simp add: switch_def Let_def A(2) T S(2) escape_swallow(2) string_continue(2)
             del: endsWith_single startsWith_single)
qed

lemma switch_line: "line (snd (switch h V c s)) = line s"
  by (simp add: switch_def Let_def concatIfTypes_def pushIfNotTypes_def
           del: endsWith_single startsWith_single)

lemma newline_inv [simp]: "wf V (newline c s) = wf V s" "out (newline c s) = out s"
  by (simp_all add: newline_def wf_def out_def)

lemma body_inv:
  assumes "wf V s"
  shows "wf V (body h V s c)" and "out (body h V s c) = out s @ [c]"
proof -
  from assms have w: "wf V (newline c s)" by simp
  obtain f s' where sw: "switch h V c (newline c s) = (f, s')"
    by (cases "switch h V c (newline c s)")
  from switch_inv [OF w, of h c] sw have "wf V s'" "out s' = out s @ [c]"
    by simp_all
  then show "wf V (body h V s c)" and "out (body h V s c) = out s @ [c]"
    by (cases f; simp add: body_def sw wf_def out_def)+
qed

lemma body_line: "line (body h V s c) = line s + (if c = CHR 0x0A then 1 else 0)"
proof -
  obtain f s' where sw: "switch h V c (newline c s) = (f, s')"
    by (cases "switch h V c (newline c s)")
  have "line (body h V s c) = line s'"
    by (cases f) (simp_all add: body_def sw)
  also from switch_line [of h V c "newline c s"] sw have "\<dots> = line (newline c s)"
    by simp
  also have "\<dots> = line s + (if c = CHR 0x0A then 1 else 0)"
    by (simp add: newline_def)
  finally show ?thesis .
qed

subsection \<open>The whole scan\<close>

lemma foldl_body_inv:
  "wf V s \<Longrightarrow> wf V (foldl (body h V) s cs) \<and> out (foldl (body h V) s cs) = out s @ cs"
  by (induction cs arbitrary: s) (simp_all add: body_inv)

lemma foldl_body_line:
  "line (foldl (body h V) s cs) = line s + length (filter (\<lambda>c. c = CHR 0x0A) cs)"
  by (induction cs arbitrary: s) (simp_all add: body_line)

lemma wf_initial: "wf V initial" "out initial = []"
  by (simp_all add: wf_def out_def initial_def)

lemma final_push:
  assumes "wf V s"
  shows "concat (map text (tokens (pushIfNotTypes h V [Unknown] s))) = out s"
    and "list_all (emitted V) (tokens (pushIfNotTypes h V [Unknown] s))"
proof -
  have "wf V (pushIfNotTypes h V [Unknown] s) \<and> out (pushIfNotTypes h V [Unknown] s) = out s
        \<and> text (token (pushIfNotTypes h V [Unknown] s)) = []"
    using assms pushToken_wf [of V s h]
    by (auto simp: pushIfNotTypes_def setType_def wf_def split: if_splits)
  then show "concat (map text (tokens (pushIfNotTypes h V [Unknown] s))) = out s"
    and "list_all (emitted V) (tokens (pushIfNotTypes h V [Unknown] s))"
    by (auto simp: out_def wf_def)
qed

lemma scanned:
  "concat (map text (tokens (pushIfNotTypes h V [Unknown] (loop h V cs 0 initial)))) = cs"
  "list_all (emitted V) (tokens (pushIfNotTypes h V [Unknown] (loop h V cs 0 initial)))"
  using foldl_body_inv [OF wf_initial(1), of V h cs]
    final_push [of V "foldl (body h V) initial cs" h]
  by (simp_all add: loop_foldl wf_initial(2))

lemma emitted_filter: "list_all (emitted V) ts \<Longrightarrow> filter (\<lambda>t. type t \<noteq> EOF) ts = ts"
  by (induction ts) (auto simp: emitted_def)

lemma emitted_count: "list_all (emitted V) ts \<Longrightarrow> length ts \<le> length (concat (map text ts))"
proof (induction ts)
  case Nil
  show ?case by simp
next
  case (Cons t ts)
  then have "text t \<noteq> []" and "length ts \<le> length (concat (map text ts))"
    by (simp_all add: emitted_def)
  then show ?case
    by (cases "text t") simp_all
qed

subsection \<open>The instruction validator only promotes\<close>

lemma demote_state_fields [simp]:
  "line (demote_state s) = line s" "pos (demote_state s) = pos s"
  "token (demote_state s) = token s" "tokens (demote_state s) = map demote (tokens s)"
  by (simp_all add: demote_state_def)

lemma resolve_without_isInstruction:
  "resolve (without_isInstruction options) = (resolve options)\<lparr> isInstruction := \<lambda>t l p. False \<rparr>"
proof (cases options)
  case None
  then show ?thesis
    by (simp add: resolve_def without_isInstruction_def validator_or_def)
next
  case (Some opts)
  then show ?thesis
    by (cases "validators opts")
       (simp_all add: resolve_def without_isInstruction_def validator_or_def split: option.splits)
qed

lemma pushToken_demote:
  "type (token s) \<noteq> Instruction \<Longrightarrow>
   pushToken h (V\<lparr> isInstruction := \<lambda>t l p. False \<rparr>) (demote_state s)
     = demote_state (pushToken h V s)"
  by (simp add: pushToken_def resetToken_def Let_def demote_state_def demote_def)

lemma setType_demote: "setType types (demote_state s) = demote_state (setType types s)"
  by (simp add: setType_def demote_state_def split: option.splits)

lemma pushIfNotTypes_demote:
  "type (token s) \<noteq> Instruction \<Longrightarrow>
   pushIfNotTypes h (V\<lparr> isInstruction := \<lambda>t l p. False \<rparr>) types (demote_state s)
     = demote_state (pushIfNotTypes h V types s)"
  by (simp add: pushIfNotTypes_def pushToken_demote setType_demote)

lemma concatIfTypes_demote:
  "concatIfTypes h types x (demote_state s) = demote_state (concatIfTypes h types x s)"
  by (simp add: concatIfTypes_def setType_def demote_state_def split: option.splits)

lemma swallow_demote:
  "(demote_state s)\<lparr> token := t \<rparr> = demote_state (s\<lparr> token := t \<rparr>)"
  by (simp add: demote_state_def)

lemma switch_demote:
  assumes "type (token s) \<noteq> Instruction"
  shows "switch h (V\<lparr> isInstruction := \<lambda>t l p. False \<rparr>) c (demote_state s)
           = (fst (switch h V c s), demote_state (snd (switch h V c s)))"
  using assms
  by (simp add: switch_def Let_def pushIfNotTypes_demote concatIfTypes_demote pushToken_demote
        swallow_demote
      del: endsWith_single startsWith_single)

lemma wf_not_Instruction: "wf V s \<Longrightarrow> type (token s) \<noteq> Instruction"
  by (auto simp: wf_def split: if_splits)

lemma body_demote:
  assumes "type (token s) \<noteq> Instruction"
  shows "body h (V\<lparr> isInstruction := \<lambda>t l p. False \<rparr>) (demote_state s) c
           = demote_state (body h V s c)"
proof -
  have n: "newline c (demote_state s) = demote_state (newline c s)"
    by (simp add: newline_def demote_state_def)
  from assms have "type (token (newline c s)) \<noteq> Instruction"
    by (simp add: newline_def)
  from switch_demote [OF this, of h V c]
  have sw: "switch h (V\<lparr> isInstruction := \<lambda>t l p. False \<rparr>) c (newline c (demote_state s))
              = (fst (switch h V c (newline c s)), demote_state (snd (switch h V c (newline c s))))"
    by (simp only: n)
  show ?thesis
    unfolding body_def sw
    by (cases "switch h V c (newline c s)"; cases "fst (switch h V c (newline c s))")
       (simp_all add: demote_state_def)
qed

lemma foldl_body_demote:
  "wf V s \<Longrightarrow>
   foldl (body h (V\<lparr> isInstruction := \<lambda>t l p. False \<rparr>)) (demote_state s) cs
     = demote_state (foldl (body h V) s cs)"
proof (induction cs arbitrary: s)
  case Nil
  show ?case by simp
next
  case (Cons c cs)
  from Cons.prems have "wf V (body h V s c)"
    by (rule body_inv(1))
  from Cons.IH [OF this] Cons.prems show ?case
    by (simp add: body_demote wf_not_Instruction)
qed

lemma scan_demote:
  "tokens (pushIfNotTypes h (V\<lparr> isInstruction := \<lambda>t l p. False \<rparr>) [Unknown]
             (loop h (V\<lparr> isInstruction := \<lambda>t l p. False \<rparr>) cs 0 initial))
     = map demote (tokens (pushIfNotTypes h V [Unknown] (loop h V cs 0 initial)))"
proof -
  have i: "demote_state initial = initial"
    by (simp add: demote_state_def initial_def)
  have w: "wf V (foldl (body h V) initial cs)"
    using foldl_body_inv [OF wf_initial(1), of V h cs] by simp
  from foldl_body_demote [where s = initial and V = V and h = h and cs = cs, OF wf_initial(1)]
  have "foldl (body h (V\<lparr> isInstruction := \<lambda>t l p. False \<rparr>)) initial cs
          = demote_state (foldl (body h V) initial cs)"
    by (simp add: i)
  with pushIfNotTypes_demote [OF wf_not_Instruction [OF w], where h = h and types = "[Unknown]"]
  show ?thesis
    by (simp add: loop_foldl)
qed

lemma tokenizer_demote:
  "tokenizer h cs (without_isInstruction options) = map demote (tokenizer h cs options)"
proof -
  have e: "(case without_isInstruction options of None \<Rightarrow> False
            | Some opts \<Rightarrow> (case insertEof opts of None \<Rightarrow> False | Some b \<Rightarrow> b))
         = (case options of None \<Rightarrow> False
            | Some opts \<Rightarrow> (case insertEof opts of None \<Rightarrow> False | Some b \<Rightarrow> b))"
    by (cases options) (simp_all add: without_isInstruction_def)
  have d: "demote eofToken = eofToken"
    by (simp add: demote_def eofToken_def)
  show ?thesis
    unfolding tokenizer_def Let_def e resolve_without_isInstruction scan_demote
    by (simp add: d)
qed

lemma tokenizer_emitted: "t \<in> set (tokenizer h cs options) \<Longrightarrow> type t = EOF \<or> emitted (resolve options) t"
  using scanned(2) [of "resolve options" h cs]
  by (auto simp: tokenizer_def Let_def list_all_iff eofToken_def split: if_splits)

subsection \<open>The column counter across one iteration\<close>

lemma switch_pos: "pos (snd (switch h V c s)) = pos s"
  by (simp add: switch_def Let_def concatIfTypes_def pushIfNotTypes_def
           del: endsWith_single startsWith_single)

lemma switch_flow:
  "fst (switch h V c s) =
     (if isString V c (line s) (pos s) \<and> endsWith (text (token s)) [CHR 0x5C]
      then Continue else Break)"
  by (simp add: switch_def Let_def del: endsWith_single startsWith_single)

text \<open>The column advances by one in every iteration but the one that swallows an
  escaped delimiter.\<close>

lemma body_pos:
  "pos (body h V s c) =
     pos (newline c s)
     + (if isString V c (line (newline c s)) (pos (newline c s))
           \<and> endsWith (text (token s)) [CHR 0x5C]
        then 0 else 1)"
proof -
  have t: "token (newline c s) = token s"
    by (simp add: newline_def)
  obtain f s' where sw: "switch h V c (newline c s) = (f, s')"
    by (cases "switch h V c (newline c s)")
  from switch_pos [of h V c "newline c s"] switch_flow [of h V c "newline c s"] sw
  have "pos s' = pos (newline c s)"
    and "f = (if isString V c (line (newline c s)) (pos (newline c s))
                 \<and> endsWith (text (token s)) [CHR 0x5C]
              then Continue else Break)"
    by (simp_all only: fst_conv snd_conv t)
  then show ?thesis
    by (simp add: body_def sw del: endsWith_single)
qed

section \<open>The claims\<close>

text \<open>
  C1 (coverage round-trip). For every input, every hash and every options value, the
  texts of the returned tokens, the EOF token left out, concatenate in order to the
  input: no character is dropped or duplicated.
\<close>

theorem coverage_round_trip:
  "concat (map text (filter (\<lambda>t. type t \<noteq> EOF) (tokenizer h cs options))) = cs"
  using emitted_filter [OF scanned(2) [of "resolve options" h cs]]
  by (simp add: tokenizer_def Let_def scanned(1) eofToken_def)

text \<open>
  C8 (no Unknown token escapes). No returned token has type Unknown, and every returned
  token other than the EOF token has a non-empty text.
\<close>

theorem no_unknown_token:
  "\<forall>t \<in> set (tokenizer h cs options). type t \<noteq> Unknown \<and> (type t \<noteq> EOF \<longrightarrow> text t \<noteq> [])"
  using scanned(2) [of "resolve options" h cs]
  by (auto simp: tokenizer_def Let_def eofToken_def list_all_iff emitted_def)

theorem no_unknown_token_witness:
  "tokenizer (\<lambda>x. 0) ''ab 1'' (Some \<lparr> validators = None, insertEof = Some True \<rparr>) =
     [ \<lparr> uid = 0, type = Identifier, text = ''ab'', IToken.line = 1, IToken.pos = 1 \<rparr>,
       \<lparr> uid = 0, type = Space, text = '' '', IToken.line = 1, IToken.pos = 3 \<rparr>,
       \<lparr> uid = 0, type = Number, text = ''1'', IToken.line = 1, IToken.pos = 4 \<rparr>,
       eofToken ]
   \<and> list_all (\<lambda>t. type t \<noteq> Unknown \<and> (type t \<noteq> EOF \<longrightarrow> text t \<noteq> []))
        (tokenizer (\<lambda>x. 0) ''ab 1'' (Some \<lparr> validators = None, insertEof = Some True \<rparr>))"
  using no_unknown_token [of "\<lambda>x. 0" "''ab 1''" "Some \<lparr> validators = None, insertEof = Some True \<rparr>"]
  by (simp add: eval_defs)

text \<open>
  C10 (policy-independent line counting). For every input and every choice of
  validators, the line number in force while the character at index \<open>i\<close> is classified
  (the one every validator receives, and the one a reset of the accumulator in that
  iteration stores) is 1 plus the number of newline characters at the indices 0 to \<open>i\<close>,
  both included. The iteration leaves it as it is, and any other validators \<open>V'\<close> give
  the same number.
\<close>

theorem line_counting:
  assumes "i < length cs"
  shows "line (classifying h V cs i) = 1 + length (filter (\<lambda>c. c = CHR 0x0A) (take (Suc i) cs))
         \<and> line (state_at h V cs (Suc i)) = line (classifying h V cs i)
         \<and> line (classifying h V' cs i) = line (classifying h V cs i)"
proof -
  have before: "line (state_at h W cs i) = 1 + length (filter (\<lambda>c. c = CHR 0x0A) (take i cs))" for W
    by (simp add: state_at_foldl foldl_body_line initial_def)
  from assms have split: "take (Suc i) cs = take i cs @ [cs ! i]"
    by (simp add: take_Suc_conv_app_nth)
  have at: "line (classifying h W cs i)
              = 1 + length (filter (\<lambda>c. c = CHR 0x0A) (take (Suc i) cs))" for W
    using before [of W] split by (simp add: classifying_def newline_def)
  have "line (state_at h V cs (Suc i)) = line (classifying h V cs i)"
    using assms by (simp add: state_at_Suc body_line classifying_def newline_def)
  with at [of V] at [of V'] show ?thesis
    by simp
qed

theorem line_counting_witness:
  "(2::nat) < length [CHR ''a'', CHR 0x0A, CHR 0x0A, CHR ''b'']
   \<and> line (classifying (\<lambda>x. 0) (resolve None) [CHR ''a'', CHR 0x0A, CHR 0x0A, CHR ''b''] 2) = 3"
  using line_counting [of 2 "[CHR ''a'', CHR 0x0A, CHR 0x0A, CHR ''b'']" "\<lambda>x. 0" "resolve None"]
  by simp

text \<open>
  C9 (totality). The loop of the tokenizer is a function defined by well-founded
  recursion on the number of characters left, and it is the fold of the loop body over
  the input; the tokenizer has no error result, returns a token list for every input and
  every options value, of at most one token per character plus the EOF token; the empty
  input gives no token but the EOF token, and an unterminated string literal gives one
  String token.
\<close>

theorem tokenizer_total:
  "loop h V cs 0 s = foldl (body h V) s cs
   \<and> (\<exists>ts. tokenizer h cs options = ts \<and> length ts \<le> Suc (length cs))
   \<and> tokenizer h [] options =
       (if (case options of None \<Rightarrow> False
            | Some opts \<Rightarrow> (case insertEof opts of None \<Rightarrow> False | Some b \<Rightarrow> b))
        then [eofToken] else [])
   \<and> tokenizer h [CHR 0x22, CHR ''a'', CHR ''b''] None =
       [ \<lparr> uid = h [CHR 0x22, CHR ''a'', CHR ''b''], type = String,
           text = [CHR 0x22, CHR ''a'', CHR ''b''], IToken.line = 1, IToken.pos = 1 \<rparr> ]"
proof -
  let ?ts = "tokens (pushIfNotTypes h (resolve options) [Unknown] (loop h (resolve options) cs 0 initial))"
  from emitted_count [OF scanned(2) [of "resolve options" h cs]] have "length ?ts \<le> length cs"
    by (simp add: scanned(1))
  then have bound: "length (tokenizer h cs options) \<le> Suc (length cs)"
    by (simp add: tokenizer_def Let_def)
  have empty: "tokenizer h [] options =
       (if (case options of None \<Rightarrow> False
            | Some opts \<Rightarrow> (case insertEof opts of None \<Rightarrow> False | Some b \<Rightarrow> b))
        then [eofToken] else [])"
    by (simp add: tokenizer_foldl pushIfNotTypes_def setType_def initial_def)
  have open_string: "tokenizer h [CHR 0x22, CHR ''a'', CHR ''b''] None =
       [ \<lparr> uid = h [CHR 0x22, CHR ''a'', CHR ''b''], type = String,
           text = [CHR 0x22, CHR ''a'', CHR ''b''], IToken.line = 1, IToken.pos = 1 \<rparr> ]"
    by (simp add: eval_defs)
  show ?thesis
    using bound empty open_string by (simp add: loop_foldl)
qed

text \<open>
  C7 (number-separator gating). With \<^verbatim>\<open>isNumberSeparator\<close> overridden to accept
  \<open>_\<close> and \<open>.\<close> and every other validator left to its default, the input \<open>1_000.50\<close>
  gives exactly one token, of type Number, with text \<open>1_000.50\<close>.
\<close>

theorem number_separator_gating:
  "tokenizer h ''1_000.50''
     (Some \<lparr> validators = Some
               \<lparr> p_isCharacter = None, p_isNumber = None, p_isSpace = None, p_isOperator = None,
                 p_isNumberSeparator = Some (\<lambda>c l p. c = CHR ''_'' \<or> c = CHR ''.''),
                 p_isSeparator = None, p_isString = None, p_isInstruction = None \<rparr>,
             insertEof = None \<rparr>) =
     [ \<lparr> uid = h ''1_000.50'', type = Number, text = ''1_000.50'',
         IToken.line = 1, IToken.pos = 1 \<rparr> ]"
  by (simp add: eval_defs)

text \<open>
  C5 (default-policy underscore behaviour), as amended. With the default policy the
  input \<open>1_000_000\<close> is split before the first underscore only: it gives the Number \<open>1\<close>
  and then one Identifier \<open>_000_000\<close>, since an underscore starts an Identifier and the
  digits and underscores that follow continue it.
\<close>

theorem default_underscore_split:
  "tokenizer h ''1_000_000'' None =
     [ \<lparr> uid = h ''1'', type = Number, text = ''1'', IToken.line = 1, IToken.pos = 1 \<rparr>,
       \<lparr> uid = h ''_000_000'', type = Identifier, text = ''_000_000'',
         IToken.line = 1, IToken.pos = 2 \<rparr> ]"
  by (simp add: eval_defs)

text \<open>
  C5 as the claim states it (no token of \<open>1_000_000\<close> spans an underscore) fails: the
  second token has characters on both sides of the second underscore.
\<close>

theorem default_underscore_counterexample:
  "\<not> (\<forall>t \<in> set (tokenizer (\<lambda>x. 0) ''1_000_000'' None). \<not> spans_underscore (text t))"
proof -
  have "spans_underscore ''_000_000''"
    unfolding spans_underscore_def by (rule exI [of _ 4]) simp
  moreover have "tokenizer (\<lambda>x. 0) ''1_000_000'' None =
     [ \<lparr> uid = 0, type = Number, text = ''1'', IToken.line = 1, IToken.pos = 1 \<rparr>,
       \<lparr> uid = 0, type = Identifier, text = ''_000_000'', IToken.line = 1, IToken.pos = 2 \<rparr> ]"
    by (simp add: eval_defs)
  ultimately show ?thesis
    by simp
qed

text \<open>
  C2 (unconditional column advance) fails on the code. In the input of the six
  characters quote, a, backslash, quote, b, quote (a string literal with an escaped
  quote) the delimiter at index 3 follows a backslash; it is swallowed and the loop goes on by
  \<^verbatim>\<open>continue\<close>, without \<^verbatim>\<open>pos++\<close>. The character at index 3 is classified at
  column 4, and so is the character at index 4, where four increments would give 5.
\<close>

theorem escaped_delimiter_keeps_column:
  "pos (classifying h (resolve None) [CHR 0x22, CHR ''a'', CHR 0x5C, CHR 0x22, CHR ''b'', CHR 0x22] 3) = 4
   \<and> pos (state_at h (resolve None) [CHR 0x22, CHR ''a'', CHR 0x5C, CHR 0x22, CHR ''b'', CHR 0x22] 4) = 4
   \<and> pos (classifying h (resolve None) [CHR 0x22, CHR ''a'', CHR 0x5C, CHR 0x22, CHR ''b'', CHR 0x22] 4) = 4"
  by (simp add: eval_defs)

text \<open>
  C3 (position capture at first character) fails on the code for a token that begins
  right after a completed String token. In the input of the four characters quote, a,
  quote, b the accumulator is reset
  while the closing delimiter at index 2 is processed, at column 3; the Identifier
  \<open>b\<close> begins at index 3, where the column counter is 4, and is emitted with \<open>pos\<close> 3.
\<close>

theorem position_after_string:
  "tokenizer h [CHR 0x22, CHR ''a'', CHR 0x22, CHR ''b''] None =
     [ \<lparr> uid = h [CHR 0x22, CHR ''a'', CHR 0x22], type = String,
         text = [CHR 0x22, CHR ''a'', CHR 0x22], IToken.line = 1, IToken.pos = 1 \<rparr>,
       \<lparr> uid = h ''b'', type = Identifier, text = ''b'', IToken.line = 1, IToken.pos = 3 \<rparr> ]
   \<and> pos (classifying h (resolve None) [CHR 0x22, CHR ''a'', CHR 0x22, CHR ''b''] 3) = 4"
  by (simp add: eval_defs)

text \<open>
  C4 (backslash-escape pairing) fails on the code. In the input of the six characters
  quote, a, backslash, backslash, quote, b the
  accumulator ends in two backslashes, an escaped backslash, when the delimiter at
  index 4 arrives; the code looks at the last character only, swallows the delimiter
  and leaves the string open: everything is one String token.
\<close>

theorem escaped_backslash_then_delimiter:
  "tokenizer h [CHR 0x22, CHR ''a'', CHR 0x5C, CHR 0x5C, CHR 0x22, CHR ''b''] None =
     [ \<lparr> uid = h [CHR 0x22, CHR ''a'', CHR 0x5C, CHR 0x5C, CHR 0x22, CHR ''b''], type = String,
         text = [CHR 0x22, CHR ''a'', CHR 0x5C, CHR 0x5C, CHR 0x22, CHR ''b''],
         IToken.line = 1, IToken.pos = 1 \<rparr> ]"
  by (simp add: eval_defs)

text \<open>
  C6 (instruction promotion). \<^verbatim>\<open>pushToken\<close> appends the accumulator with its text
  unchanged and with type Instruction exactly when the accumulator is an Identifier for
  whose text \<^verbatim>\<open>isInstruction\<close> holds (at the current line and column), and with the
  accumulator's own type otherwise. In the output, turning every Instruction back into
  an Identifier gives the output of the same run without the \<^verbatim>\<open>isInstruction\<close>
  override: only Identifier-shaped tokens are promoted and nothing else changes. Every
  Instruction of the output has a text that \<^verbatim>\<open>isInstruction\<close> accepts, every
  Identifier of the output a text that it rejects, and with the default validator no
  Instruction is emitted.
\<close>

theorem instruction_promotion:
  "tokens (pushToken h V s) =
     tokens s @ [(token s)\<lparr> type := (if type (token s) = Identifier
                                           \<and> isInstruction V (text (token s)) (line s) (pos s)
                                        then Instruction else type (token s)),
                             uid := h (text (token s)) \<rparr>]
   \<and> map demote (tokenizer h cs options) = tokenizer h cs (without_isInstruction options)
   \<and> (\<forall>t \<in> set (tokenizer h cs options).
         (type t = Instruction \<longrightarrow> (\<exists>l p. isInstruction (resolve options) (text t) l p))
         \<and> (type t = Identifier \<longrightarrow> (\<exists>l p. \<not> isInstruction (resolve options) (text t) l p)))
   \<and> (\<forall>t \<in> set (tokenizer h cs (without_isInstruction options)). type t \<noteq> Instruction)"
proof -
  have a: "\<forall>t \<in> set (tokenizer h cs options).
         (type t = Instruction \<longrightarrow> (\<exists>l p. isInstruction (resolve options) (text t) l p))
         \<and> (type t = Identifier \<longrightarrow> (\<exists>l p. \<not> isInstruction (resolve options) (text t) l p))"
  proof
    fix t
    assume "t \<in> set (tokenizer h cs options)"
    from tokenizer_emitted [OF this]
    show "(type t = Instruction \<longrightarrow> (\<exists>l p. isInstruction (resolve options) (text t) l p))
         \<and> (type t = Identifier \<longrightarrow> (\<exists>l p. \<not> isInstruction (resolve options) (text t) l p))"
      by (auto simp: emitted_def)
  qed
  have b: "\<forall>t \<in> set (tokenizer h cs (without_isInstruction options)). type t \<noteq> Instruction"
  proof
    fix t
    assume "t \<in> set (tokenizer h cs (without_isInstruction options))"
    from tokenizer_emitted [OF this]
    show "type t \<noteq> Instruction"
      by (auto simp: emitted_def resolve_without_isInstruction)
  qed
  from a b show ?thesis
    by (simp add: pushToken_tokens tokenizer_demote)
qed

theorem instruction_promotion_witness:
  "tokenizer (\<lambda>x. 0) ''ADD add''
     (Some \<lparr> validators = Some
               \<lparr> p_isCharacter = None, p_isNumber = None, p_isSpace = None, p_isOperator = None,
                 p_isNumberSeparator = None, p_isSeparator = None, p_isString = None,
                 p_isInstruction = Some (\<lambda>t l p. t = ''ADD'') \<rparr>,
             insertEof = None \<rparr>) =
     [ \<lparr> uid = 0, type = Instruction, text = ''ADD'', IToken.line = 1, IToken.pos = 1 \<rparr>,
       \<lparr> uid = 0, type = Space, text = '' '', IToken.line = 1, IToken.pos = 4 \<rparr>,
       \<lparr> uid = 0, type = Identifier, text = ''add'', IToken.line = 1, IToken.pos = 5 \<rparr> ]
   \<and> tokenizer (\<lambda>x. 0) ''ADD add''
       (without_isInstruction (Some \<lparr> validators = Some
               \<lparr> p_isCharacter = None, p_isNumber = None, p_isSpace = None, p_isOperator = None,
                 p_isNumberSeparator = None, p_isSeparator = None, p_isString = None,
                 p_isInstruction = Some (\<lambda>t l p. t = ''ADD'') \<rparr>,
             insertEof = None \<rparr>)) =
     [ \<lparr> uid = 0, type = Identifier, text = ''ADD'', IToken.line = 1, IToken.pos = 1 \<rparr>,
       \<lparr> uid = 0, type = Space, text = '' '', IToken.line = 1, IToken.pos = 4 \<rparr>,
       \<lparr> uid = 0, type = Identifier, text = ''add'', IToken.line = 1, IToken.pos = 5 \<rparr> ]"
proof -
  let ?opts = "Some \<lparr> validators = Some
               \<lparr> p_isCharacter = None, p_isNumber = None, p_isSpace = None, p_isOperator = None,
                 p_isNumberSeparator = None, p_isSeparator = None, p_isString = None,
                 p_isInstruction = Some (\<lambda>t l p. t = ''ADD'') \<rparr>,
             insertEof = None \<rparr>"
  have run: "tokenizer (\<lambda>x. 0) ''ADD add'' ?opts =
     [ \<lparr> uid = 0, type = Instruction, text = ''ADD'', IToken.line = 1, IToken.pos = 1 \<rparr>,
       \<lparr> uid = 0, type = Space, text = '' '', IToken.line = 1, IToken.pos = 4 \<rparr>,
       \<lparr> uid = 0, type = Identifier, text = ''add'', IToken.line = 1, IToken.pos = 5 \<rparr> ]"
    by (simp add: eval_defs)
  from instruction_promotion [of "\<lambda>x. 0" "resolve ?opts" initial "''ADD add''" ?opts]
  have "map demote (tokenizer (\<lambda>x. 0) ''ADD add'' ?opts)
          = tokenizer (\<lambda>x. 0) ''ADD add'' (without_isInstruction ?opts)"
    by blast
  with run show ?thesis
    by (simp add: demote_def)
qed

end
